theory Spec2Isabelle
  imports Complex_Main
begin

section \<open>JavaScript numbers\<close>

text \<open>
  The module is TypeScript and runs as JavaScript, so a \<open>number\<close> is an IEEE 754 double.
  A number is \<open>NaN\<close>, one of the two infinities, or a finite value \<open>Fin x\<close> carrying the real
  number \<open>x\<close> it denotes. The two zeros are one value, as \<open>===\<close> has it; the code divides
  only by a number it has found greater than zero, so the sign of a zero is never seen.
  Every operation computes the exact real result and rounds it to the nearest double, ties
  to the even mantissa, with overflow to an infinity: \<open>fl\<close> below. A decimal literal of the
  source denotes the double nearest to it: \<open>lit\<close>.
\<close>

datatype jsnum = NaN | PInf | NInf | Fin real

text \<open>Rounding a real to the nearest integer, a tie going to the even neighbour.\<close>

definition roundHalfEven :: "real \<Rightarrow> int" where
  "roundHalfEven q =
     (let f = \<lfloor>q\<rfloor>; r = q - of_int f
      in if r < 1 / 2 then f else if 1 / 2 < r then f + 1 else if even f then f else f + 1)"

text \<open>
  The binary exponent of a positive real, found by bisection between \<open>lo\<close> and \<open>hi\<close>: the
  \<open>k\<close> with \<open>2 powi k \<le> a < 2 powi (k + 1)\<close>. \<open>binade\<close> keeps it in the range of the
  normal doubles; below \<open>2 powi (- 1022)\<close> the doubles are subnormal and share the exponent
  \<open>- 1022\<close>.
\<close>

function bisect :: "real \<Rightarrow> int \<Rightarrow> int \<Rightarrow> int" where
  "bisect a lo hi =
     (if hi \<le> lo + 1 then lo
      else let mid = (lo + hi) div 2
           in if 2 powi mid \<le> a then bisect a mid hi else bisect a lo mid)"
  by pat_completeness auto
termination
  by (relation "measure (\<lambda>(a, lo, hi). nat (hi - lo))") auto

declare bisect.simps [simp del]

definition binade :: "real \<Rightarrow> int" where
  "binade a = (if a < 2 powi (- 1022) then - 1022 else bisect a (- 1022) 1024)"

text \<open>
  A double has 53 bits of mantissa, so the doubles of the binade \<open>e\<close> are the multiples of
  \<open>2 powi (e - 52)\<close>. \<open>roundAbs\<close> rounds a non-negative real to the nearest of them.
\<close>

definition roundAbs :: "real \<Rightarrow> real" where
  "roundAbs a =
     (let e = binade a - 52
      in of_int (roundHalfEven (a / 2 powi e)) * 2 powi e)"

definition fl :: "real \<Rightarrow> jsnum" where
  "fl x =
     (if x = 0 then Fin 0
      else
        let y = roundAbs \<bar>x\<bar>
        in if 2 powi 1024 \<le> y then (if 0 < x then PInf else NInf)
           else Fin (if 0 < x then y else - y))"

definition lit :: "real \<Rightarrow> jsnum" where
  "lit d = fl d"

text \<open>The operators \<open>+\<close>, \<open>*\<close>, \<open>/\<close> and \<open>>\<close> on numbers, and \<open>isNaN\<close>.\<close>

fun fadd :: "jsnum \<Rightarrow> jsnum \<Rightarrow> jsnum" where
  "fadd NaN _ = NaN"
| "fadd _ NaN = NaN"
| "fadd PInf NInf = NaN"
| "fadd NInf PInf = NaN"
| "fadd PInf _ = PInf"
| "fadd _ PInf = PInf"
| "fadd NInf _ = NInf"
| "fadd _ NInf = NInf"
| "fadd (Fin x) (Fin y) = fl (x + y)"

fun fmul :: "jsnum \<Rightarrow> jsnum \<Rightarrow> jsnum" where
  "fmul NaN _ = NaN"
| "fmul _ NaN = NaN"
| "fmul (Fin x) (Fin y) = fl (x * y)"
| "fmul (Fin x) PInf = (if x = 0 then NaN else if 0 < x then PInf else NInf)"
| "fmul (Fin x) NInf = (if x = 0 then NaN else if 0 < x then NInf else PInf)"
| "fmul PInf (Fin y) = (if y = 0 then NaN else if 0 < y then PInf else NInf)"
| "fmul NInf (Fin y) = (if y = 0 then NaN else if 0 < y then NInf else PInf)"
| "fmul PInf PInf = PInf"
| "fmul PInf NInf = NInf"
| "fmul NInf PInf = NInf"
| "fmul NInf NInf = PInf"

fun fdiv :: "jsnum \<Rightarrow> jsnum \<Rightarrow> jsnum" where
  "fdiv NaN _ = NaN"
| "fdiv _ NaN = NaN"
| "fdiv (Fin x) (Fin y) =
     (if y = 0 then (if x = 0 then NaN else if 0 < x then PInf else NInf) else fl (x / y))"
| "fdiv (Fin x) PInf = Fin 0"
| "fdiv (Fin x) NInf = Fin 0"
| "fdiv PInf (Fin y) = (if 0 \<le> y then PInf else NInf)"
| "fdiv NInf (Fin y) = (if 0 \<le> y then NInf else PInf)"
| "fdiv PInf PInf = NaN"
| "fdiv PInf NInf = NaN"
| "fdiv NInf PInf = NaN"
| "fdiv NInf NInf = NaN"

fun fgt :: "jsnum \<Rightarrow> jsnum \<Rightarrow> bool" where
  "fgt NaN _ = False"
| "fgt _ NaN = False"
| "fgt PInf PInf = False"
| "fgt PInf _ = True"
| "fgt _ PInf = False"
| "fgt NInf _ = False"
| "fgt (Fin x) NInf = True"
| "fgt (Fin x) (Fin y) = (y < x)"


section \<open>Values read from an object\<close>

text \<open>
  \<open>obj[key]\<close> on an object literal gives the own property when the literal declares the key,
  and otherwise follows the prototype chain to \<open>Object.prototype\<close>, whose property names
  every object literal inherits; the inherited values are functions, and \<open>__proto__\<close> is the
  prototype object itself. None of them is \<open>null\<close> or \<open>undefined\<close>, so \<open>??\<close> keeps them. In
  \<open>v + n\<close> such a value is converted to a string and \<open>n\<close> is appended; in \<open>v * n\<close> it, and
  the string made from it, convert to \<open>NaN\<close>.
\<close>

datatype jsval = JSUndefined | JSNumber jsnum | JSObject | JSString

definition OBJECT_PROTOTYPE_KEYS :: "string list" where
  "OBJECT_PROTOTYPE_KEYS =
     [''constructor'', ''hasOwnProperty'', ''isPrototypeOf'', ''propertyIsEnumerable'',
      ''toLocaleString'', ''toString'', ''valueOf'', ''__proto__'', ''__defineGetter__'',
      ''__defineSetter__'', ''__lookupGetter__'', ''__lookupSetter__'']"

definition getProperty :: "(string \<times> jsnum) list \<Rightarrow> string \<Rightarrow> jsval" where
  "getProperty obj key =
     (case map_of obj key of
        Some v \<Rightarrow> JSNumber v
      | None \<Rightarrow> if key \<in> set OBJECT_PROTOTYPE_KEYS then JSObject else JSUndefined)"

text \<open>\<open>v ?? d\<close> with a number on the right.\<close>

fun nullish :: "jsval \<Rightarrow> jsnum \<Rightarrow> jsval" where
  "nullish JSUndefined d = JSNumber d"
| "nullish v d = v"

text \<open>\<open>v + n\<close> and \<open>v * n\<close> with a number on the right.\<close>

fun jsPlus :: "jsval \<Rightarrow> jsnum \<Rightarrow> jsval" where
  "jsPlus (JSNumber a) n = JSNumber (fadd a n)"
| "jsPlus JSUndefined n = JSNumber NaN"
| "jsPlus JSObject n = JSString"
| "jsPlus JSString n = JSString"

fun jsTimes :: "jsval \<Rightarrow> jsnum \<Rightarrow> jsnum" where
  "jsTimes (JSNumber a) n = fmul a n"
| "jsTimes JSUndefined n = NaN"
| "jsTimes JSObject n = NaN"
| "jsTimes JSString n = NaN"

section \<open>Data model of the GPA module\<close>

text \<open>
  An optional field (\<open>isWeighted?\<close>, \<open>weightType?\<close>) is an \<open>option\<close>, \<open>None\<close> standing for
  \<open>undefined\<close>. The string-literal union of weight types and the scale tag are datatypes. A
  \<open>Record<string, number>\<close> is the list of its declared entries. The fields \<open>id\<close>, \<open>name\<close>
  and \<open>credits\<close> occur in several interfaces and carry the interface as a prefix where they
  would clash; \<open>term\<close> and \<open>max\<close> are primed.
\<close>

datatype GPAScale = US | AU

datatype WeightType = AP | Honours | Standard

record Course =
  course_id :: string
  course_name :: string
  grade :: string
  credits :: jsnum
  isWeighted :: "bool option"
  weightType :: "WeightType option"

record Semester =
  semester_id :: string
  semester_name :: string
  term' :: string
  courses :: "Course list"
  scale :: GPAScale

record WeightMultipliers =
  mAP :: jsnum
  mHonours :: jsnum
  mStandard :: jsnum

text \<open>The indexed read \<open>multipliers[course.weightType]\<close>.\<close>

fun multiplierAt :: "WeightMultipliers \<Rightarrow> WeightType \<Rightarrow> jsnum" where
  "multiplierAt m AP = mAP m"
| "multiplierAt m Honours = mHonours m"
| "multiplierAt m Standard = mStandard m"


definition DEFAULT_WEIGHT_MULTIPLIERS :: WeightMultipliers where
  "DEFAULT_WEIGHT_MULTIPLIERS = \<lparr> mAP = lit 1.0, mHonours = lit 0.5, mStandard = lit 0 \<rparr>"

definition US_GRADES :: "string list" where
  "US_GRADES = [''A'', ''A-'', ''B+'', ''B'', ''B-'', ''C+'', ''C'', ''C-'', ''D+'', ''D'', ''D-'', ''F'']"

definition AU_GRADES :: "string list" where
  "AU_GRADES = [''HD'', ''D'', ''C'', ''P'', ''F'']"

definition US_GRADE_POINTS :: "(string \<times> jsnum) list" where
  "US_GRADE_POINTS =
    [(''A'', lit 4.0), (''A-'', lit 3.7), (''B+'', lit 3.3), (''B'', lit 3.0),
     (''B-'', lit 2.7), (''C+'', lit 2.3), (''C'', lit 2.0), (''C-'', lit 1.7),
     (''D+'', lit 1.3), (''D'', lit 1.0), (''D-'', lit 0.7), (''F'', lit 0.0)]"

definition AU_GRADE_POINTS :: "(string \<times> jsnum) list" where
  "AU_GRADE_POINTS =
    [(''HD'', lit 7.0), (''D'', lit 6.0), (''C'', lit 5.0), (''P'', lit 4.0), (''F'', lit 0.0)]"

definition US_CREDIT_OPTIONS :: "jsnum list" where
  "US_CREDIT_OPTIONS = [lit 1, lit 2, lit 3, lit 4, lit 5, lit 6]"

definition AU_CREDIT_OPTIONS :: "jsnum list" where
  "AU_CREDIT_OPTIONS = [lit 10, lit 20]"

record ScaleConfig =
  grades :: "string list"
  points :: "(string \<times> jsnum) list"
  max' :: jsnum
  weightedMax :: jsnum
  label :: string
  creditLabel :: string
  creditOptions :: "jsnum list"
  gpaLabel :: string

fun SCALE_CONFIG :: "GPAScale \<Rightarrow> ScaleConfig" where
  "SCALE_CONFIG US =
     \<lparr> grades = US_GRADES, points = US_GRADE_POINTS, max' = lit 4.0, weightedMax = lit 5.0,
       label = ''US (4.0)'', creditLabel = ''Credit Hours'',
       creditOptions = US_CREDIT_OPTIONS, gpaLabel = ''GPA (4.0 scale)'' \<rparr>"
| "SCALE_CONFIG AU =
     \<lparr> grades = AU_GRADES, points = AU_GRADE_POINTS, max' = lit 7.0, weightedMax = lit 7.0,
       label = ''AU (7.0)'', creditLabel = ''Credit Points'',
       creditOptions = AU_CREDIT_OPTIONS, gpaLabel = ''GPA (7.0 scale)'' \<rparr>"

section \<open>The GPA calculator\<close>

text \<open>
  The body of the \<open>forEach\<close> callback of \<open>calculateGPA\<close>, acting on the two accumulators
  \<open>(totalPoints, totalCredits)\<close>. \<open>course.isWeighted\<close> is truthy exactly when it is \<open>true\<close>;
  \<open>course.weightType\<close> is truthy exactly when it is defined, its three possible strings
  being non-empty. The default arguments \<open>useWeighting = false\<close> and
  \<open>multipliers = DEFAULT_WEIGHT_MULTIPLIERS\<close> are passed explicitly by the callers below.
\<close>

definition forEachBody ::
  "ScaleConfig \<Rightarrow> GPAScale \<Rightarrow> bool \<Rightarrow> WeightMultipliers \<Rightarrow> jsnum \<times> jsnum \<Rightarrow> Course \<Rightarrow> jsnum \<times> jsnum"
where
  "forEachBody config scale' useWeighting multipliers acc course =
     (let totalPoints = fst acc;
          totalCredits = snd acc;
          baseGradePoint = nullish (getProperty (points config) (grade course)) (lit 0);
          gradePoint = (case weightType course of
                          Some w \<Rightarrow>
                            if useWeighting \<and> isWeighted course = Some True \<and> scale' = US
                            then jsPlus baseGradePoint (multiplierAt multipliers w)
                            else baseGradePoint
                        | None \<Rightarrow> baseGradePoint)
      in (fadd totalPoints (jsTimes gradePoint (credits course)),
          fadd totalCredits (credits course)))"

definition calculateGPA ::
  "Course list \<Rightarrow> GPAScale \<Rightarrow> bool \<Rightarrow> WeightMultipliers \<Rightarrow> jsnum"
where
  "calculateGPA courses' scale' useWeighting multipliers =
     (if length courses' = 0 then lit 0
      else
        let config = SCALE_CONFIG scale';
            totals = foldl (forEachBody config scale' useWeighting multipliers)
                       (lit 0, lit 0) courses';
            totalPoints = fst totals;
            totalCredits = snd totals
        in if fgt totalCredits (lit 0) then fdiv totalPoints totalCredits else lit 0)"

section \<open>The cumulative aggregator\<close>

text \<open>
  \<open>semesters.flatMap((s) => s.courses)\<close> is the concatenation of the course lists in
  semester order. The function returns before \<open>semesters[0]\<close> is read when there is no
  course at all. \<open>semesters[0]?.scale || "US"\<close> is the first semester's scale, both scale
  tags being truthy, and \<open>"US"\<close> when there is no first semester.
\<close>

definition calculateCumulativeGPA ::
  "Semester list \<Rightarrow> bool \<Rightarrow> WeightMultipliers \<Rightarrow> jsnum"
where
  "calculateCumulativeGPA semesters useWeighting multipliers =
     (let allCourses = concat (map courses semesters)
      in if length allCourses = 0 then lit 0
         else
           let scale' = (case semesters of [] \<Rightarrow> US | s # _ \<Rightarrow> scale s)
           in calculateGPA allCourses scale' useWeighting multipliers)"

section \<open>The prediction screen\<close>







section \<open>The weighted-cap resolver\<close>

text \<open>
  Modelled from the spec: \<open>getWeightedGPACap\<close> is imported by the semester screens from the
  types module and called with one argument, a list of US courses, but the function itself
  is not in the source files. The definition follows section 4.4 of the specification: the
  weighted maximum of the US scale when a course has weight type AP; otherwise the
  unweighted maximum plus the Honours multiplier when a course has weight type Honours;
  otherwise the unweighted maximum.
\<close>

definition getWeightedGPACap :: "Course list \<Rightarrow> jsnum" where
  "getWeightedGPACap courses' =
     (if list_ex (\<lambda>c. weightType c = Some AP) courses'
      then weightedMax (SCALE_CONFIG US)
      else if list_ex (\<lambda>c. weightType c = Some Honours) courses'
      then fadd (max' (SCALE_CONFIG US)) (mHonours DEFAULT_WEIGHT_MULTIPLIERS)
      else max' (SCALE_CONFIG US))"

section \<open>Quantities the specification names\<close>

text \<open>
  \<open>basePoint s g\<close> is the specification's \<open>points(s, g)\<close>: the entry of the grade-point
  table of scale \<open>s\<close> for the grade \<open>g\<close>, and \<open>0\<close> for a grade the table does not have.
  \<open>sumCredits\<close> is the sum of the credits as the loop accumulates it in \<open>totalCredits\<close>.
\<close>

definition basePoint :: "GPAScale \<Rightarrow> string \<Rightarrow> jsnum" where
  "basePoint s g = (case map_of (points (SCALE_CONFIG s)) g of Some p \<Rightarrow> p | None \<Rightarrow> lit 0)"

definition sumCredits :: "Course list \<Rightarrow> jsnum" where
  "sumCredits cs = foldl (\<lambda>sum c. fadd sum (credits c)) (lit 0) cs"

section \<open>Rounding to a double\<close>

text \<open>
  What the proofs below need of the rounding: it leaves the whole numbers up to \<open>2 ^ 53\<close>
  alone (\<open>fl_of_nat\<close>), it leaves its own results alone (\<open>fl_idem\<close>), it never crosses a
  double (\<open>fl_le_fixed\<close>), it does not take a sum down to zero (\<open>fl_ge_tiny\<close>) and it
  overflows to infinity from \<open>2 powi 1024\<close> on (\<open>fl_overflow\<close>). \<open>fl_eval\<close> computes a
  rounding once the binade is given.
\<close>

lemma pow2_le_iff: "(2::real) powi m \<le> 2 powi n \<longleftrightarrow> m \<le> n"
proof
  assume "(2::real) powi m \<le> 2 powi n"
  show "m \<le> n"
  proof (rule ccontr)
    assume "\<not> m \<le> n"
    then have "(2::real) powi n < 2 powi m"
      by (intro power_int_strict_increasing) auto
    with \<open>(2::real) powi m \<le> 2 powi n\<close> show False by simp
  qed
next
  assume "m \<le> n"
  then show "(2::real) powi m \<le> 2 powi n"
    by (intro power_int_increasing) auto
qed

lemma pow2_less_iff: "(2::real) powi m < 2 powi n \<longleftrightarrow> m < n"
  using pow2_le_iff [of n m] by (auto simp: not_le [symmetric])

lemma bisect_base: "hi \<le> lo + 1 \<Longrightarrow> bisect a lo hi = lo"
  by (subst bisect.simps) simp

lemma bisect_right:
  "\<not> hi \<le> lo + 1 \<Longrightarrow> 2 powi ((lo + hi) div 2) \<le> a \<Longrightarrow>
     bisect a lo hi = bisect a ((lo + hi) div 2) hi"
  by (subst bisect.simps) (simp add: Let_def)

lemma bisect_left:
  "\<not> hi \<le> lo + 1 \<Longrightarrow> \<not> 2 powi ((lo + hi) div 2) \<le> a \<Longrightarrow>
     bisect a lo hi = bisect a lo ((lo + hi) div 2)"
  by (subst bisect.simps) (simp add: Let_def)

lemma bisect_spec:
  "lo < hi \<Longrightarrow>
     lo \<le> bisect a lo hi \<and> bisect a lo hi < hi
     \<and> (2 powi lo \<le> a \<longrightarrow> 2 powi (bisect a lo hi) \<le> a)
     \<and> (a < 2 powi hi \<longrightarrow> a < 2 powi (bisect a lo hi + 1))
     \<and> (2 powi (hi - 1) \<le> a \<longrightarrow> bisect a lo hi = hi - 1)"
proof (induction a lo hi rule: bisect.induct)
  case (1 a lo hi)
  show ?case
  proof (cases "hi \<le> lo + 1")
    case True
    with 1(3) have "hi = lo + 1" by simp
    then show ?thesis by (simp add: bisect_base)
  next
    case False
    define mid where "mid = (lo + hi) div 2"
    have m: "lo < mid" "mid < hi" using False by (auto simp: mid_def)
    show ?thesis
    proof (cases "2 powi mid \<le> a")
      case True
      have eq: "bisect a lo hi = bisect a mid hi"
        using bisect_right [OF False] True by (simp add: mid_def)
      from 1(1) [OF False mid_def True m(2)] m True show ?thesis
        unfolding eq by auto
    next
      case F2: False
      have eq: "bisect a lo hi = bisect a lo mid"
        using bisect_left [OF False] F2 by (simp add: mid_def)
      have "\<not> 2 powi (hi - 1) \<le> a"
      proof
        assume "2 powi (hi - 1) \<le> a"
        moreover have "(2::real) powi mid \<le> 2 powi (hi - 1)"
          using m by (simp add: pow2_le_iff)
        ultimately show False using F2 by simp
      qed
      moreover have "a < 2 powi mid" using F2 by simp
      ultimately show ?thesis
        using 1(2) [OF False mid_def F2 m(1)] m unfolding eq by auto
    qed
  qed
qed

lemma binade_range: "- 1022 \<le> binade a \<and> binade a \<le> 1023"
  using bisect_spec [of "- 1022" 1024 a] by (auto simp: binade_def)

lemma binade_lower: "2 powi (- 1022) \<le> a \<Longrightarrow> 2 powi (binade a) \<le> a"
  using bisect_spec [of "- 1022" 1024 a] by (auto simp: binade_def)

lemma binade_upper: "a < 2 powi 1024 \<Longrightarrow> a < 2 powi (binade a + 1)"
proof (cases "a < 2 powi (- 1022)")
  case True
  moreover have "(2::real) powi (- 1022) \<le> 2 powi (- 1022 + 1)"
    by (subst pow2_le_iff) simp
  ultimately show ?thesis by (simp add: binade_def)
next
  case False
  assume "a < 2 powi 1024"
  with False show ?thesis
    using bisect_spec [of "- 1022" 1024 a] by (auto simp: binade_def)
qed

lemma binade_top: "2 powi 1023 \<le> a \<Longrightarrow> binade a = 1023"
proof -
  assume a: "2 powi 1023 \<le> a"
  have "(2::real) powi (- 1022) \<le> 2 powi 1023"
    by (subst pow2_le_iff) simp
  with a have "\<not> a < 2 powi (- 1022)" by simp
  with a show ?thesis
    using bisect_spec [of "- 1022" 1024 a] by (auto simp: binade_def)
qed

lemma binade_eqI:
  assumes "- 1022 \<le> L" "L \<le> 1023" "a < 2 powi (L + 1)" "L = - 1022 \<or> 2 powi L \<le> a"
  shows "binade a = L"
proof -
  have "(2::real) powi (L + 1) \<le> 2 powi 1024"
    using assms(2) by (subst pow2_le_iff) simp
  with assms(3) have lt: "a < 2 powi 1024" by simp
  note up = binade_upper [OF lt]
  show ?thesis
  proof (cases "a < 2 powi (- 1022)")
    case True
    then have B: "binade a = - 1022" by (simp add: binade_def)
    have "L = - 1022"
    proof (rule ccontr)
      assume "L \<noteq> - 1022"
      with assms(4) have "2 powi L \<le> a" by simp
      with True have "(2::real) powi L < 2 powi (- 1022)" by simp
      then have "L < - 1022" by (simp only: pow2_less_iff)
      with assms(1) show False by simp
    qed
    with B show ?thesis by simp
  next
    case False
    then have lo: "2 powi (binade a) \<le> a" by (simp add: binade_lower)
    from lo assms(3) have "(2::real) powi (binade a) < 2 powi (L + 1)" by simp
    then have 1: "binade a \<le> L" by (simp add: pow2_less_iff)
    have 2: "L \<le> binade a"
    proof (cases "L = - 1022")
      case True
      then show ?thesis using binade_range [of a] by simp
    next
      case F: False
      with assms(4) have "2 powi L \<le> a" by simp
      with up have "(2::real) powi L < 2 powi (binade a + 1)" by simp
      then show ?thesis by (simp add: pow2_less_iff)
    qed
    from 1 2 show ?thesis by simp
  qed
qed

lemma roundHalfEven_of_int [simp]: "roundHalfEven (of_int n) = n"
  by (simp add: roundHalfEven_def)

lemma roundHalfEven_le: "q \<le> of_int M \<Longrightarrow> roundHalfEven q \<le> M"
proof -
  assume a: "q \<le> of_int M"
  show ?thesis
  proof (cases "q = of_int M")
    case True
    then show ?thesis by simp
  next
    case False
    with a have "q < of_int M" by simp
    then have "\<lfloor>q\<rfloor> < M" by (simp add: floor_less_iff)
    then show ?thesis by (simp add: roundHalfEven_def Let_def)
  qed
qed

lemma roundHalfEven_ge: "of_int M \<le> q \<Longrightarrow> M \<le> roundHalfEven q"
proof -
  assume "of_int M \<le> q"
  then have "M \<le> \<lfloor>q\<rfloor>" by (simp add: le_floor_iff)
  then show ?thesis by (simp add: roundHalfEven_def Let_def)
qed


lemma pow2_pos [simp]: "0 < (2::real) powi n"
  by simp

lemma pow2_split: "(2::real) powi (m + n) = 2 powi m * 2 powi n"
  by (simp add: power_int_add)

lemma div_pow2: "(2::real) powi m / 2 powi n = 2 powi (m - n)"
  by (simp add: power_int_diff)

lemma binade_mono: "a \<le> b \<Longrightarrow> b < 2 powi 1024 \<Longrightarrow> binade a \<le> binade b"
proof (cases "a < 2 powi (- 1022)")
  case True
  then show ?thesis using binade_range [of b] by (simp add: binade_def)
next
  case False
  assume ab: "a \<le> b" and b: "b < 2 powi 1024"
  from False have "2 powi (binade a) \<le> a" by (simp add: binade_lower)
  also note ab
  also note binade_upper [OF b]
  finally show ?thesis by (simp add: pow2_less_iff)
qed

lemma roundAbs_binade:
  "roundAbs a = of_int (roundHalfEven (a / 2 powi (binade a - 52))) * 2 powi (binade a - 52)"
  by (simp add: roundAbs_def Let_def)

lemma roundAbs_exact:
  "a = of_int k * 2 powi (binade a - 52) \<Longrightarrow> roundAbs a = a"
proof -
  assume a: "a = of_int k * 2 powi (binade a - 52)"
  have "a / 2 powi (binade a - 52) = of_int k"
    by (subst a) simp
  then show ?thesis
    using a by (simp add: roundAbs_binade)
qed

lemma roundAbs_nonneg: "0 \<le> a \<Longrightarrow> 0 \<le> roundAbs a"
proof -
  assume "0 \<le> a"
  then have "of_int 0 \<le> a / 2 powi (binade a - 52)" by simp
  then have "0 \<le> roundHalfEven (a / 2 powi (binade a - 52))"
    by (rule roundHalfEven_ge)
  then show ?thesis by (simp add: roundAbs_binade)
qed

lemma roundAbs_upper:
  assumes "a < 2 powi 1024"
  shows "roundAbs a \<le> 2 powi (binade a + 1)"
proof -
  let ?e = "binade a - 52"
  have "a / 2 powi ?e < 2 powi (binade a + 1) / 2 powi ?e"
    using binade_upper [OF assms] by (simp add: divide_strict_right_mono)
  also have "\<dots> = 2 powi 53" by (subst div_pow2) simp
  also have "\<dots> = of_int (2 ^ 53)" by simp
  finally have "roundHalfEven (a / 2 powi ?e) \<le> 2 ^ 53"
    by (intro roundHalfEven_le) simp
  then have "of_int (roundHalfEven (a / 2 powi ?e)) \<le> (2::real) powi 53"
    by (metis of_int_le_iff of_int_numeral of_int_power power_int_numeral)
  then have "roundAbs a \<le> 2 powi 53 * 2 powi ?e"
    by (simp add: roundAbs_binade)
  also have "\<dots> = 2 powi (53 + ?e)"
    by (rule pow2_split [symmetric])
  also have "53 + ?e = binade a + 1"
    by simp
  finally show ?thesis .
qed

lemma roundAbs_lower:
  assumes "2 powi (- 1022) \<le> a"
  shows "2 powi (binade a) \<le> roundAbs a"
proof -
  let ?e = "binade a - 52"
  have "2 powi (binade a) / 2 powi ?e \<le> a / 2 powi ?e"
    using binade_lower [OF assms] by (simp add: divide_right_mono)
  moreover have "2 powi (binade a) / 2 powi ?e = (2::real) powi 52"
    by (subst div_pow2) simp
  moreover have "(2::real) powi 52 = of_int (2 ^ 52)" by simp
  ultimately have "2 ^ 52 \<le> roundHalfEven (a / 2 powi ?e)"
    by (intro roundHalfEven_ge) simp
  then have "(2::real) powi 52 \<le> of_int (roundHalfEven (a / 2 powi ?e))"
    by (metis of_int_le_iff of_int_numeral of_int_power power_int_numeral)
  then have "2 powi 52 * 2 powi ?e \<le> roundAbs a"
    by (simp add: roundAbs_binade)
  moreover have "2 powi 52 * 2 powi ?e = (2::real) powi (52 + ?e)"
    by (rule pow2_split [symmetric])
  moreover have "52 + ?e = binade a"
    by simp
  ultimately show ?thesis by simp
qed


lemma roundAbs_eval:
  assumes "- 1022 \<le> L" "L \<le> 1023" "a < 2 powi (L + 1)" "L = - 1022 \<or> 2 powi L \<le> a"
  shows "roundAbs a = of_int (roundHalfEven (a / 2 powi (L - 52))) * 2 powi (L - 52)"
  using binade_eqI [OF assms] by (simp add: roundAbs_binade)

text \<open>Rounding never crosses a value that rounding leaves alone.\<close>

lemma roundAbs_le_fixed:
  assumes "0 \<le> a" "a \<le> b" "b < 2 powi 1024" "roundAbs b = b"
  shows "roundAbs a \<le> b"
proof -
  let ?ea = "binade a - 52" and ?eb = "binade b - 52"
  define nb where "nb = roundHalfEven (b / 2 powi ?eb)"
  have b: "b = of_int nb * 2 powi ?eb"
    using assms(4) by (simp add: roundAbs_binade nb_def)
  have le: "?ea \<le> ?eb"
    using binade_mono [OF assms(2,3)] by simp
  define M where "M = nb * 2 ^ nat (?eb - ?ea)"
  have "(2::real) powi ?eb = 2 powi (?eb - ?ea) * 2 powi ?ea"
    by (subst pow2_split [symmetric]) simp
  also have "(2::real) powi (?eb - ?ea) = 2 ^ nat (?eb - ?ea)"
    using le by (simp add: power_int_def)
  finally have bM: "b = of_int M * 2 powi ?ea"
    by (subst b) (simp add: M_def)
  have "a / 2 powi ?ea \<le> b / 2 powi ?ea"
    using assms(2) by (simp add: divide_right_mono)
  also have "b / 2 powi ?ea = of_int M"
    by (subst bM) simp
  finally have "roundHalfEven (a / 2 powi ?ea) \<le> M"
    by (rule roundHalfEven_le)
  then have "of_int (roundHalfEven (a / 2 powi ?ea)) * 2 powi ?ea \<le> of_int M * (2::real) powi ?ea"
    by (simp add: mult_right_mono)
  then show ?thesis
    by (simp add: roundAbs_binade bM [symmetric])
qed

lemma binade_of_nat:
  assumes "0 < n" "n \<le> 2 ^ 53"
  shows "0 \<le> binade (of_nat n) \<and> binade (of_nat n) \<le> 53"
proof -
  let ?a = "of_nat n :: real"
  have a1: "(2::real) powi 0 \<le> ?a" using assms(1) by simp
  have "(2::real) powi (- 1022) \<le> 2 powi 0" by (subst pow2_le_iff) simp
  with a1 have sub: "2 powi (- 1022) \<le> ?a" by linarith
  have "?a \<le> 2 ^ 53" using assms(2) by (metis of_nat_le_iff of_nat_numeral of_nat_power)
  then have a2: "?a \<le> 2 powi 53" by simp
  have "(2::real) powi 53 < 2 powi 1024" by (subst pow2_less_iff) simp
  with a2 have lt: "?a < 2 powi 1024" by linarith
  have "(2::real) powi 0 < 2 powi (binade ?a + 1)"
    using a1 binade_upper [OF lt] by linarith
  then have 1: "0 \<le> binade ?a" by (simp only: pow2_less_iff)
  have "(2::real) powi (binade ?a) \<le> 2 powi 53"
    using binade_lower [OF sub] a2 by linarith
  then have 2: "binade ?a \<le> 53" by (simp only: pow2_le_iff)
  from 1 2 show ?thesis by simp
qed


lemma roundHalfEven_0 [simp]: "roundHalfEven 0 = 0"
  by (simp add: roundHalfEven_def)

lemma roundAbs_of_nat:
  assumes "n \<le> 2 ^ 53"
  shows "roundAbs (of_nat n) = of_nat n"
proof (cases "n = 0")
  case True
  then show ?thesis by (simp add: roundAbs_binade)
next
  case False
  let ?a = "of_nat n :: real" and ?B = "binade (of_nat n :: real)"
  from False assms have B: "0 \<le> ?B" "?B \<le> 53"
    using binade_of_nat [of n] by simp_all
  show ?thesis
  proof (cases "?B \<le> 52")
    case True
    have "(2::real) powi (52 - ?B) * 2 powi (?B - 52) = 2 powi ((52 - ?B) + (?B - 52))"
      by (rule pow2_split [symmetric])
    then have one: "(2::real) powi (52 - ?B) * 2 powi (?B - 52) = 1"
      by simp
    have "(2::real) powi (52 - ?B) = of_int (2 ^ nat (52 - ?B))"
      using True by (simp add: power_int_def)
    then have "?a = of_int (int n * 2 ^ nat (52 - ?B)) * 2 powi (?B - 52)"
      using one by (simp add: mult.assoc)
    then show ?thesis by (rule roundAbs_exact)
  next
    case F: False
    with B have B53: "?B = 53" by simp
    have "(2::real) powi (- 1022) \<le> 2 powi 0" by (subst pow2_le_iff) simp
    moreover have "(2::real) powi 0 \<le> ?a" using \<open>n \<noteq> 0\<close> by simp
    ultimately have "2 powi (- 1022) \<le> ?a" by linarith
    from binade_lower [OF this] have "2 powi 53 \<le> ?a" by (simp only: B53)
    moreover have "?a \<le> 2 ^ 53"
      using assms by (metis of_nat_le_iff of_nat_numeral of_nat_power)
    ultimately have a: "?a = 2 ^ 53" by simp
    have e: "?B - 52 = 1"
      using B53 by simp
    have "?a = of_int (2 ^ 52) * 2 powi (?B - 52)"
      by (simp only: e) (simp add: a)
    then show ?thesis by (rule roundAbs_exact)
  qed
qed



lemma roundAbs_0 [simp]: "roundAbs 0 = 0"
  by (simp add: roundAbs_binade)

lemma roundAbs_overflow:
  assumes "2 powi 1024 \<le> a"
  shows "2 powi 1024 \<le> roundAbs a"
proof -
  have "(2::real) powi 1023 \<le> 2 powi 1024" by (subst pow2_le_iff) simp
  with assms have "2 powi 1023 \<le> a" by linarith
  then have B: "binade a - 52 = 971" by (simp add: binade_top)
  have "2 powi 1024 / 2 powi 971 \<le> a / 2 powi 971"
    using assms by (intro divide_right_mono) simp_all
  moreover have "(2::real) powi 1024 / 2 powi 971 = 2 powi 53"
    by (subst div_pow2) simp
  moreover have "(2::real) powi 53 = of_int (2 ^ 53)" by simp
  ultimately have "2 ^ 53 \<le> roundHalfEven (a / 2 powi 971)"
    by (intro roundHalfEven_ge) simp
  then have "(2::real) powi 53 \<le> of_int (roundHalfEven (a / 2 powi 971))"
    by (metis of_int_le_iff of_int_numeral of_int_power power_int_numeral)
  then have "2 powi 53 * 2 powi 971 \<le> of_int (roundHalfEven (a / 2 powi 971)) * (2::real) powi 971"
    by (intro mult_right_mono) simp_all
  moreover have "(2::real) powi 53 * 2 powi 971 = 2 powi (53 + 971)"
    by (rule pow2_split [symmetric])
  ultimately show ?thesis
    by (simp only: roundAbs_binade B) simp
qed

lemma roundAbs_idem:
  assumes "0 \<le> a" "roundAbs a < 2 powi 1024"
  shows "roundAbs (roundAbs a) = roundAbs a"
proof -
  let ?y = "roundAbs a" and ?B = "binade a"
  define n where "n = roundHalfEven (a / 2 powi (?B - 52))"
  have y: "?y = of_int n * 2 powi (?B - 52)"
    by (simp add: roundAbs_binade n_def)
  have lt: "a < 2 powi 1024"
    using roundAbs_overflow [of a] assms(2) by (cases "a < 2 powi 1024") simp_all
  show ?thesis
  proof (cases "a < 2 powi (- 1022)")
    case True
    then have B: "?B = - 1022" by (simp add: binade_def)
    have "a / 2 powi (- 1074) < 2 powi (- 1022) / 2 powi (- 1074)"
      using True by (intro divide_strict_right_mono) simp_all
    also have "(2::real) powi (- 1022) / 2 powi (- 1074) = 2 powi 52"
      by (subst div_pow2) simp
    also have "(2::real) powi 52 = of_int (2 ^ 52)" by simp
    finally have "n \<le> 2 ^ 52"
      unfolding n_def B by (intro roundHalfEven_le) simp
    then have "of_int n \<le> (2::real) powi 52"
      by (metis of_int_le_iff of_int_numeral of_int_power power_int_numeral)
    then have "of_int n * 2 powi (- 1074) \<le> (2::real) powi 52 * 2 powi (- 1074)"
      by (intro mult_right_mono) simp_all
    also have "(2::real) powi 52 * 2 powi (- 1074) = 2 powi (52 + - 1074)"
      by (rule pow2_split [symmetric])
    also have "(2::real) powi (52 + - 1074) < 2 powi (- 1022 + 1)"
      by (subst pow2_less_iff) simp
    finally have "?y < 2 powi (- 1022 + 1)"
      using y B by simp
    then have "binade ?y = - 1022"
      by (intro binade_eqI) simp_all
    with y B have "?y = of_int n * 2 powi (binade ?y - 52)" by simp
    then show ?thesis by (rule roundAbs_exact)
  next
    case False
    then have sub: "2 powi (- 1022) \<le> a" by simp
    note lo = roundAbs_lower [OF sub] and up = roundAbs_upper [OF lt]
    note r = binade_range [of a]
    show ?thesis
    proof (cases "?y < 2 powi (?B + 1)")
      case True
      have "binade ?y = ?B"
        using r True lo by (intro binade_eqI) simp_all
      with y have "?y = of_int n * 2 powi (binade ?y - 52)" by simp
      then show ?thesis by (rule roundAbs_exact)
    next
      case F: False
      with up have eq: "?y = 2 powi (?B + 1)" by simp
      with assms(2) have "(2::real) powi (?B + 1) < 2 powi 1024" by simp
      then have B1: "?B + 1 \<le> 1023" by (simp only: pow2_less_iff)
      have "(2::real) powi (?B + 1) < 2 powi (?B + 1 + 1)"
        by (subst pow2_less_iff) simp
      then have By: "binade ?y = ?B + 1"
        using r B1 eq by (intro binade_eqI) simp_all
      have e2: "52 + (?B + 1 - 52) = ?B + 1"
        by simp
      have p: "(2::real) powi 52 * 2 powi (?B + 1 - 52) = 2 powi (?B + 1)"
        by (simp only: pow2_split [symmetric] e2)
      have e3: "binade ?y - 52 = ?B + 1 - 52"
        using By by simp
      have "?y = 2 powi 52 * 2 powi (binade ?y - 52)"
        unfolding e3 p by (rule eq)
      then have "?y = of_int (2 ^ 52) * 2 powi (binade ?y - 52)"
        by simp
      then show ?thesis by (rule roundAbs_exact)
    qed
  qed
qed


lemma fl_0 [simp]: "fl 0 = Fin 0"
  by (simp add: fl_def)

lemma fl_pos_eq:
  "0 < x \<Longrightarrow> fl x = (if 2 powi 1024 \<le> roundAbs x then PInf else Fin (roundAbs x))"
  by (simp add: fl_def Let_def)

lemma fl_neg_eq:
  "x < 0 \<Longrightarrow> fl x = (if 2 powi 1024 \<le> roundAbs (- x) then NInf else Fin (- roundAbs (- x)))"
  by (simp add: fl_def Let_def)

lemma fl_of_nat:
  assumes "n \<le> 2 ^ 53"
  shows "fl (of_nat n) = Fin (of_nat n)"
proof (cases "n = 0")
  case True
  then show ?thesis by simp
next
  case False
  have "(of_nat n :: real) \<le> 2 ^ 53"
    using assms by (metis of_nat_le_iff of_nat_numeral of_nat_power)
  then have "(of_nat n :: real) \<le> 2 powi 53" by simp
  moreover have "(2::real) powi 53 < 2 powi 1024" by (subst pow2_less_iff) simp
  ultimately have "(of_nat n :: real) < 2 powi 1024" by linarith
  with False show ?thesis
    by (simp add: fl_pos_eq roundAbs_of_nat [OF assms])
qed

lemma fl_overflow: "2 powi 1024 \<le> x \<Longrightarrow> fl x = PInf"
proof -
  assume a: "2 powi 1024 \<le> x"
  have "(0::real) < 2 powi 1024" by (rule pow2_pos)
  with a have "0 < x" by linarith
  with roundAbs_overflow [OF a] show ?thesis by (simp add: fl_pos_eq)
qed

lemma fl_idem:
  assumes "fl x = Fin y"
  shows "fl y = Fin y"
proof (cases "y = 0")
  case True
  then show ?thesis by simp
next
  case False
  show ?thesis
  proof (cases x "0::real" rule: linorder_cases)
    case equal
    with assms False show ?thesis by simp
  next
    case greater
    with assms have y: "y = roundAbs x" and lt: "roundAbs x < 2 powi 1024"
      by (auto simp: fl_pos_eq split: if_splits)
    from greater have "0 \<le> roundAbs x" by (intro roundAbs_nonneg) simp
    with False y have pos: "0 < y" by simp
    from greater lt have "roundAbs (roundAbs x) = roundAbs x"
      by (intro roundAbs_idem) simp_all
    with y lt pos show ?thesis by (simp add: fl_pos_eq)
  next
    case less
    with assms have y: "y = - roundAbs (- x)" and lt: "roundAbs (- x) < 2 powi 1024"
      by (auto simp: fl_neg_eq split: if_splits)
    from less have "0 \<le> roundAbs (- x)" by (intro roundAbs_nonneg) simp
    with False y have neg: "y < 0" by simp
    from less lt have "roundAbs (roundAbs (- x)) = roundAbs (- x)"
      by (intro roundAbs_idem) simp_all
    with y lt neg show ?thesis by (simp add: fl_neg_eq)
  qed
qed

lemma fl_le_fixed:
  assumes "0 \<le> x" "x \<le> y" "fl y = Fin y"
  shows "\<exists>w. fl x = Fin w \<and> 0 \<le> w \<and> w \<le> y"
proof (cases "x = 0")
  case True
  with assms show ?thesis by simp
next
  case False
  with assms have x: "0 < x" and y: "0 < y" by simp_all
  from assms(3) y have fy: "roundAbs y = y" and lt: "y < 2 powi 1024"
    by (auto simp: fl_pos_eq split: if_splits)
  have le: "roundAbs x \<le> y"
    using assms(1,2) lt fy by (rule roundAbs_le_fixed)
  with lt have "\<not> 2 powi 1024 \<le> roundAbs x" by simp
  with x le roundAbs_nonneg [OF assms(1)] show ?thesis
    by (simp add: fl_pos_eq)
qed


lemma fl_eval:
  assumes "0 < x" "- 1022 \<le> L" "L \<le> 1022" "x < 2 powi (L + 1)" "L = - 1022 \<or> 2 powi L \<le> x"
  shows "fl x = Fin (of_int (roundHalfEven (x / 2 powi (L - 52))) * 2 powi (L - 52))"
proof -
  have L: "L \<le> 1023" using assms(3) by simp
  have B: "binade x = L"
    using assms(2) L assms(4,5) by (rule binade_eqI)
  have "(2::real) powi (L + 1) < 2 powi 1024"
    using assms(3) by (subst pow2_less_iff) simp
  with assms(4) have lt: "x < 2 powi 1024" by linarith
  have "roundAbs x \<le> 2 powi (L + 1)"
    using roundAbs_upper [OF lt] B by simp
  with \<open>(2::real) powi (L + 1) < 2 powi 1024\<close> have "\<not> 2 powi 1024 \<le> roundAbs x"
    by linarith
  with assms(1) show ?thesis
    by (simp only: fl_pos_eq if_False roundAbs_binade B)
qed

section \<open>Numbers that the operations compute exactly\<close>

lemma fl_numeral [simp]: "numeral k \<le> (2::nat) ^ 53 \<Longrightarrow> fl (numeral k) = Fin (numeral k)"
  using fl_of_nat [of "numeral k"] by simp

lemma fl_1 [simp]: "fl 1 = Fin 1"
  using fl_of_nat [of 1] by simp

lemma fl_half: "fl (1 / 2) = Fin (1 / 2)"
  using fl_eval [of "1 / 2" "- 1"] by (simp add: roundHalfEven_def)

lemma fl_9_2: "fl (9 / 2) = Fin (9 / 2)"
  using fl_eval [of "9 / 2" 2] by (simp add: roundHalfEven_def)

lemma fl_11_2: "fl (11 / 2) = Fin (11 / 2)"
  using fl_eval [of "11 / 2" 2] by (simp add: roundHalfEven_def)

lemma fl_7_2: "fl (7 / 2) = Fin (7 / 2)"
  using fl_eval [of "7 / 2" 1] by (simp add: roundHalfEven_def)

lemma fadd_fl_0: "fadd (fl q) (Fin 0) = fl q"
proof (cases "fl q")
  case (Fin y)
  then show ?thesis using fl_idem [OF Fin] by simp
qed simp_all

section \<open>The loop of the calculator\<close>

lemma forEachBody_unweighted:
  "forEachBody config s False m acc c =
     (fadd (fst acc) (jsTimes (nullish (getProperty (points config) (grade c)) (lit 0)) (credits c)),
      fadd (snd acc) (credits c))"
  by (simp add: forEachBody_def Let_def split: option.split)

lemma forEachBody_unweighted_any:
  "forEachBody config s False m1 = forEachBody config s False m2"
  by (intro ext) (simp add: forEachBody_unweighted)

lemma snd_forEachBody:
  "snd (forEachBody config s uw m acc c) = fadd (snd acc) (credits c)"
  by (simp add: forEachBody_def Let_def)

lemma snd_foldl_forEachBody:
  "snd (foldl (forEachBody config s uw m) acc cs) =
     foldl (\<lambda>sum c. fadd sum (credits c)) (snd acc) cs"
  by (induction cs arbitrary: acc) (simp_all add: snd_forEachBody)

lemma totalCredits_sumCredits:
  "snd (foldl (forEachBody config s uw m) (lit 0, lit 0) cs) = sumCredits cs"
  by (simp add: snd_foldl_forEachBody sumCredits_def)

section \<open>The cumulative GPA is the GPA of the flattened semesters\<close>

text \<open>
  Claim C2. For every list of semesters, \<open>calculateCumulativeGPA\<close> is \<open>calculateGPA\<close> of the
  concatenation of the semesters' courses, in semester order and course order, on the
  scale of the first semester and with the same weighting flag and multipliers; for the
  empty list of semesters it is \<open>0\<close>, the branch taken before any scale is read.
\<close>

theorem calculateCumulativeGPA_flatten:
  "calculateCumulativeGPA [] useWeighting m = Fin 0
   \<and> calculateCumulativeGPA (sem # sems) useWeighting m =
       calculateGPA (concat (map courses (sem # sems))) (scale sem) useWeighting m"
  by (simp add: calculateCumulativeGPA_def calculateGPA_def Let_def lit_def)

section \<open>Without weighting the multipliers do not matter\<close>

text \<open>
  Claim C10. For every course list, every scale and any two multiplier tables,
  \<open>calculateGPA\<close> with \<open>useWeighting\<close> false returns the same value under both tables.
\<close>

theorem calculateGPA_unweighted_ignores_multipliers:
  "calculateGPA cs s False m1 = calculateGPA cs s False m2"
  by (simp add: calculateGPA_def forEachBody_unweighted_any [of _ _ m1 m2])

section \<open>The cap of the weighted GPA\<close>

text \<open>
  Claim C5. \<open>getWeightedGPACap\<close> returns the weighted maximum of the scale, 5.0 for US,
  whenever at least one course has weight type AP, whatever the other courses are;
  otherwise, when at least one course has weight type Honours and none has AP, the
  unweighted maximum plus the Honours multiplier; and when no course has a weight type that
  carries a bonus, the unweighted maximum.
\<close>

theorem getWeightedGPACap_cases:
  "((\<exists>c\<in>set cs. weightType c = Some AP) \<longrightarrow>
        getWeightedGPACap cs = weightedMax (SCALE_CONFIG US) \<and> getWeightedGPACap cs = Fin 5)
   \<and> ((\<exists>c\<in>set cs. weightType c = Some Honours) \<and> \<not> (\<exists>c\<in>set cs. weightType c = Some AP) \<longrightarrow>
        getWeightedGPACap cs =
          fadd (max' (SCALE_CONFIG US)) (mHonours DEFAULT_WEIGHT_MULTIPLIERS))
   \<and> (\<not> (\<exists>c\<in>set cs. weightType c = Some AP \<or> weightType c = Some Honours) \<longrightarrow>
        getWeightedGPACap cs = max' (SCALE_CONFIG US))"
  by (auto simp: getWeightedGPACap_def list_ex_iff lit_def)

theorem getWeightedGPACap_cases_witness:
  "getWeightedGPACap
     [\<lparr> course_id = ''1'', course_name = ''Algebra'', grade = ''A'', credits = Fin 3,
        isWeighted = Some True, weightType = Some Honours \<rparr>,
      \<lparr> course_id = ''2'', course_name = ''Calculus'', grade = ''B'', credits = Fin 4,
        isWeighted = Some True, weightType = Some AP \<rparr>] = Fin 5
   \<and> getWeightedGPACap
     [\<lparr> course_id = ''1'', course_name = ''Algebra'', grade = ''A'', credits = Fin 3,
        isWeighted = Some True, weightType = Some Honours \<rparr>,
      \<lparr> course_id = ''3'', course_name = ''History'', grade = ''B'', credits = Fin 3,
        isWeighted = None, weightType = None \<rparr>] = Fin 4.5
   \<and> getWeightedGPACap
     [\<lparr> course_id = ''3'', course_name = ''History'', grade = ''B'', credits = Fin 3,
        isWeighted = None, weightType = None \<rparr>] = Fin 4"
  using
    getWeightedGPACap_cases
      [of "[\<lparr> course_id = ''1'', course_name = ''Algebra'', grade = ''A'', credits = Fin 3,
              isWeighted = Some True, weightType = Some Honours \<rparr>,
            \<lparr> course_id = ''2'', course_name = ''Calculus'', grade = ''B'', credits = Fin 4,
              isWeighted = Some True, weightType = Some AP \<rparr>]"]
    getWeightedGPACap_cases
      [of "[\<lparr> course_id = ''1'', course_name = ''Algebra'', grade = ''A'', credits = Fin 3,
              isWeighted = Some True, weightType = Some Honours \<rparr>,
            \<lparr> course_id = ''3'', course_name = ''History'', grade = ''B'', credits = Fin 3,
              isWeighted = None, weightType = None \<rparr>]"]
    getWeightedGPACap_cases
      [of "[\<lparr> course_id = ''3'', course_name = ''History'', grade = ''B'', credits = Fin 3,
              isWeighted = None, weightType = None \<rparr>]"]
  by (simp add: DEFAULT_WEIGHT_MULTIPLIERS_def lit_def fl_half fl_9_2)

section \<open>The guards against division by zero\<close>

lemma fdiv_by_zero: "fdiv tp (Fin 0) = NaN \<or> fdiv tp (Fin 0) = PInf \<or> fdiv tp (Fin 0) = NInf"
  by (cases tp) simp_all

text \<open>
  Claim C6. On every scale \<open>calculateGPA\<close> of the empty course list is exactly \<open>0\<close>, and for
  every non-empty course list whose credits sum to zero it is \<open>0\<close> as well, where the
  quotient of the two totals would be \<open>NaN\<close> or an infinity: the division is guarded.
\<close>

theorem calculateGPA_zero_guards:
  "calculateGPA [] s useWeighting m = Fin 0
   \<and> (cs \<noteq> [] \<and> sumCredits cs = Fin 0 \<longrightarrow>
        calculateGPA cs s useWeighting m = Fin 0
        \<and> fdiv (fst (foldl (forEachBody (SCALE_CONFIG s) s useWeighting m) (lit 0, lit 0) cs))
                (snd (foldl (forEachBody (SCALE_CONFIG s) s useWeighting m) (lit 0, lit 0) cs))
            \<in> {NaN, PInf, NInf})
   \<and> fdiv (Fin 0) (Fin 0) = NaN"
proof -
  let ?t = "foldl (forEachBody (SCALE_CONFIG s) s useWeighting m) (lit 0, lit 0) cs"
  have z: "lit 0 = Fin 0"
    by (simp add: lit_def)
  have 1: "calculateGPA [] s useWeighting m = Fin 0"
    by (simp add: calculateGPA_def z)
  have 2: "calculateGPA cs s useWeighting m = Fin 0 \<and> fdiv (fst ?t) (snd ?t) \<in> {NaN, PInf, NInf}"
    if "cs \<noteq> [] \<and> sumCredits cs = Fin 0"
  proof -
    from that have t: "snd ?t = Fin 0"
      by (simp only: totalCredits_sumCredits)
    then have "calculateGPA cs s useWeighting m = Fin 0"
      by (simp add: calculateGPA_def Let_def z)
    moreover have "fdiv (fst ?t) (snd ?t) \<in> {NaN, PInf, NInf}"
      using fdiv_by_zero [of "fst ?t"] by (simp only: t) blast
    ultimately show ?thesis by simp
  qed
  have 3: "fdiv (Fin 0) (Fin 0) = NaN"
    by simp
  from 1 2 3 show ?thesis by blast
qed

theorem calculateGPA_zero_guards_witness:
  "sumCredits
     [\<lparr> course_id = ''1'', course_name = ''Seminar'', grade = ''A'', credits = Fin 0,
        isWeighted = None, weightType = None \<rparr>] = Fin 0
   \<and> calculateGPA
        [\<lparr> course_id = ''1'', course_name = ''Seminar'', grade = ''A'', credits = Fin 0,
            isWeighted = None, weightType = None \<rparr>] US False DEFAULT_WEIGHT_MULTIPLIERS = Fin 0
   \<and> fdiv (fst (foldl (forEachBody (SCALE_CONFIG US) US False DEFAULT_WEIGHT_MULTIPLIERS)
                  (lit 0, lit 0)
                  [\<lparr> course_id = ''1'', course_name = ''Seminar'', grade = ''A'',
                      credits = Fin 0, isWeighted = None, weightType = None \<rparr>]))
            (snd (foldl (forEachBody (SCALE_CONFIG US) US False DEFAULT_WEIGHT_MULTIPLIERS)
                  (lit 0, lit 0)
                  [\<lparr> course_id = ''1'', course_name = ''Seminar'', grade = ''A'',
                      credits = Fin 0, isWeighted = None, weightType = None \<rparr>])) = NaN"
  using calculateGPA_zero_guards
    [of US False DEFAULT_WEIGHT_MULTIPLIERS
        "[\<lparr> course_id = ''1'', course_name = ''Seminar'', grade = ''A'', credits = Fin 0,
            isWeighted = None, weightType = None \<rparr>]"]
  by (simp add: sumCredits_def lit_def forEachBody_unweighted getProperty_def
        US_GRADE_POINTS_def)

section \<open>A grade that names an inherited property\<close>


section \<open>Unknown grades\<close>





section \<open>Weighting touches only courses that carry a bonus\<close>

lemma lit_is_rounding: "\<exists>q. lit d = fl q"
  by (auto simp: lit_def)

lemma points_are_roundings:
  "map_of (points (SCALE_CONFIG s)) g = Some p \<Longrightarrow> \<exists>q. p = fl q"
  by (cases s)
    (auto simp: US_GRADE_POINTS_def AU_GRADE_POINTS_def lit_is_rounding split: if_splits)

lemma jsTimes_plus_zero:
  assumes "obj = points (SCALE_CONFIG s)"
  shows "jsTimes (jsPlus (nullish (getProperty obj g) (lit 0)) (Fin 0)) n =
         jsTimes (nullish (getProperty obj g) (lit 0)) n"
proof (cases "map_of obj g")
  case None
  then show ?thesis by (simp add: getProperty_def lit_def)
next
  case (Some p)
  then obtain q where "p = fl q" using points_are_roundings assms by blast
  with Some show ?thesis by (simp add: getProperty_def fadd_fl_0)
qed

lemma forEachBody_no_bonus:
  assumes "s = AU \<or> \<not> (isWeighted c = Some True \<and>
             (\<exists>w. weightType c = Some w \<and> multiplierAt m w \<noteq> Fin 0))"
  shows "forEachBody (SCALE_CONFIG s) s True m acc c = forEachBody (SCALE_CONFIG s) s False m acc c"
proof (cases "weightType c")
  case None
  then show ?thesis by (simp add: forEachBody_def)
next
  case (Some w)
  show ?thesis
  proof (cases "isWeighted c = Some True \<and> s = US")
    case True
    with assms Some have "multiplierAt m w = Fin 0" by (cases s) auto
    with True Some show ?thesis
      by (simp add: forEachBody_def Let_def jsTimes_plus_zero [of US_GRADE_POINTS US])
  next
    case False
    with Some show ?thesis by (auto simp: forEachBody_def Let_def)
  qed
qed

lemma foldl_forEachBody_no_bonus:
  assumes "s = AU \<or> (\<forall>c\<in>set cs. \<not> (isWeighted c = Some True \<and>
             (\<exists>w. weightType c = Some w \<and> multiplierAt m w \<noteq> Fin 0)))"
  shows "foldl (forEachBody (SCALE_CONFIG s) s True m) acc cs =
         foldl (forEachBody (SCALE_CONFIG s) s False m) acc cs"
  using assms
proof (induction cs arbitrary: acc)
  case Nil
  show ?case by simp
next
  case (Cons c cs)
  from Cons.prems have "forEachBody (SCALE_CONFIG s) s True m acc c =
                        forEachBody (SCALE_CONFIG s) s False m acc c"
    by (intro forEachBody_no_bonus) auto
  moreover from Cons.prems have "s = AU \<or> (\<forall>c\<in>set cs. \<not> (isWeighted c = Some True \<and>
             (\<exists>w. weightType c = Some w \<and> multiplierAt m w \<noteq> Fin 0)))"
    by auto
  ultimately show ?case using Cons.IH by simp
qed

lemma calculateGPA_no_bonus:
  assumes "s = AU \<or> (\<forall>c\<in>set cs. \<not> (isWeighted c = Some True \<and>
             (\<exists>w. weightType c = Some w \<and> multiplierAt m w \<noteq> Fin 0)))"
  shows "calculateGPA cs s True m = calculateGPA cs s False m"
  by (simp add: calculateGPA_def foldl_forEachBody_no_bonus [OF assms])

text \<open>
  Claim C4. Weighting changes the result of \<open>calculateGPA\<close> only through US-scale courses
  with \<open>isWeighted\<close> true and a weight type other than Standard: for every course list with
  no such course, and so for every course list on the AU scale, \<open>calculateGPA\<close> returns the
  same value with \<open>useWeighting\<close> true as with \<open>useWeighting\<close> false. The multipliers are
  any table whose Standard entry is \<open>0\<close>, as it is in \<open>DEFAULT_WEIGHT_MULTIPLIERS\<close>, the table
  every caller passes; on the AU scale the table does not matter.
\<close>

theorem calculateGPA_weighting_noop:
  "(mStandard m = Fin 0 \<and>
    (s = AU \<or> (\<forall>c\<in>set cs. \<not> (isWeighted c = Some True \<and>
        (weightType c = Some AP \<or> weightType c = Some Honours)))) \<longrightarrow>
      calculateGPA cs s True m = calculateGPA cs s False m)
   \<and> mStandard DEFAULT_WEIGHT_MULTIPLIERS = Fin 0
   \<and> calculateGPA cs AU True m = calculateGPA cs AU False m"
proof (intro conjI impI)
  assume a: "mStandard m = Fin 0 \<and>
    (s = AU \<or> (\<forall>c\<in>set cs. \<not> (isWeighted c = Some True \<and>
        (weightType c = Some AP \<or> weightType c = Some Honours))))"
  then have "multiplierAt m w \<noteq> Fin 0 \<Longrightarrow> w = AP \<or> w = Honours" for w
    by (cases w) simp_all
  with a have "s = AU \<or> (\<forall>c\<in>set cs. \<not> (isWeighted c = Some True \<and>
        (\<exists>w. weightType c = Some w \<and> multiplierAt m w \<noteq> Fin 0)))"
    by blast
  then show "calculateGPA cs s True m = calculateGPA cs s False m"
    by (rule calculateGPA_no_bonus)
next
  show "mStandard DEFAULT_WEIGHT_MULTIPLIERS = Fin 0"
    by (simp add: DEFAULT_WEIGHT_MULTIPLIERS_def lit_def)
next
  show "calculateGPA cs AU True m = calculateGPA cs AU False m"
    by (rule calculateGPA_no_bonus) simp
qed

theorem calculateGPA_weighting_noop_witness:
  "calculateGPA
     [\<lparr> course_id = ''1'', course_name = ''Algebra'', grade = ''A'', credits = Fin 3,
        isWeighted = Some True, weightType = Some Standard \<rparr>,
      \<lparr> course_id = ''2'', course_name = ''History'', grade = ''B'', credits = Fin 3,
        isWeighted = None, weightType = None \<rparr>]
     US True DEFAULT_WEIGHT_MULTIPLIERS = Fin 3.5
   \<and> calculateGPA
     [\<lparr> course_id = ''3'', course_name = ''Law'', grade = ''HD'', credits = Fin 10,
        isWeighted = Some True, weightType = Some AP \<rparr>]
     AU True DEFAULT_WEIGHT_MULTIPLIERS = Fin 7"
  using
    calculateGPA_weighting_noop
      [of DEFAULT_WEIGHT_MULTIPLIERS US
          "[\<lparr> course_id = ''1'', course_name = ''Algebra'', grade = ''A'', credits = Fin 3,
              isWeighted = Some True, weightType = Some Standard \<rparr>,
            \<lparr> course_id = ''2'', course_name = ''History'', grade = ''B'', credits = Fin 3,
              isWeighted = None, weightType = None \<rparr>]"]
    calculateGPA_weighting_noop
      [of DEFAULT_WEIGHT_MULTIPLIERS AU
          "[\<lparr> course_id = ''3'', course_name = ''Law'', grade = ''HD'', credits = Fin 10,
              isWeighted = Some True, weightType = Some AP \<rparr>]"]
  by (simp add: calculateGPA_def forEachBody_unweighted getProperty_def US_GRADE_POINTS_def
        AU_GRADE_POINTS_def Let_def lit_def fl_7_2)

section \<open>Whole numbers in the loop\<close>


lemma fadd_nat:
  "a + b \<le> 2 ^ 53 \<Longrightarrow> fadd (Fin (of_nat a)) (Fin (of_nat b)) = Fin (of_nat (a + b))"
  using fl_of_nat [of "a + b"] by simp


lemma nullish_basePoint:
  "g \<notin> set OBJECT_PROTOTYPE_KEYS \<Longrightarrow>
     nullish (getProperty (points (SCALE_CONFIG s)) g) (lit 0) = JSNumber (basePoint s g)"
  by (simp add: getProperty_def basePoint_def split: option.split)


section \<open>Two course lists on which the doubles round\<close>

text \<open>
  Two HD courses on the AU scale, of 0.1 and 0.4 credits: the products with 7 and their sum
  are rounded, the credits add up to exactly one half, and the quotient is the double above
  7. And two HD courses of \<open>2 ^ 53\<close> credits and one credit: the sum of the credits is
  rounded down to \<open>2 ^ 53\<close>, the sum of the products up, and the quotient is again the
  double above 7.
\<close>

lemma calculateGPA_HD_tenths:
  "calculateGPA
     [\<lparr> course_id = ''1'', course_name = ''Law'', grade = ''HD'', credits = lit 0.1,
        isWeighted = None, weightType = None \<rparr>,
      \<lparr> course_id = ''2'', course_name = ''Ethics'', grade = ''HD'', credits = lit 0.4,
        isWeighted = None, weightType = None \<rparr>] AU False DEFAULT_WEIGHT_MULTIPLIERS
     = Fin (7881299347898369 / 1125899906842624)"
proof -
  have c1: "fl (1 / 10) = Fin (3602879701896397 / 36028797018963968)"
    using fl_eval [of "1 / 10" "- 4"] by (simp add: roundHalfEven_def)
  have c2: "fl (2 / 5) = Fin (3602879701896397 / 9007199254740992)"
    using fl_eval [of "2 / 5" "- 2"] by (simp add: roundHalfEven_def)
  have p1: "fl (25220157913274779 / 36028797018963968) = Fin (6305039478318695 / 9007199254740992)"
    using fl_eval [of "25220157913274779 / 36028797018963968" "- 1"]
    by (simp add: roundHalfEven_def)
  have p2: "fl (25220157913274779 / 9007199254740992) = Fin (6305039478318695 / 2251799813685248)"
    using fl_eval [of "25220157913274779 / 9007199254740992" 1]
    by (simp add: roundHalfEven_def)
  note i1 = fl_idem [OF p1] and i2 = fl_idem [OF c1]
  have s1: "fl (31525197391593475 / 9007199254740992) = Fin (7881299347898369 / 2251799813685248)"
    using fl_eval [of "31525197391593475 / 9007199254740992" 1]
    by (simp add: roundHalfEven_def)
  have s2: "fl (18014398509481985 / 36028797018963968) = Fin (1 / 2)"
    using fl_eval [of "18014398509481985 / 36028797018963968" "- 1"]
    by (simp add: roundHalfEven_def)
  have d: "fl (7881299347898369 / 1125899906842624) = Fin (7881299347898369 / 1125899906842624)"
    using fl_eval [of "7881299347898369 / 1125899906842624" 2]
    by (simp add: roundHalfEven_def)
  show ?thesis
    unfolding calculateGPA_def forEachBody_unweighted
    by (simp add: getProperty_def AU_GRADE_POINTS_def Let_def lit_def c1 c2 p1 p2 i1 i2 s1 s2 d)
qed

lemma calculateGPA_HD_large:
  "calculateGPA
     [\<lparr> course_id = ''1'', course_name = ''Law'', grade = ''HD'', credits = Fin (2 ^ 53),
        isWeighted = None, weightType = None \<rparr>,
      \<lparr> course_id = ''2'', course_name = ''Ethics'', grade = ''HD'', credits = Fin 1,
        isWeighted = None, weightType = None \<rparr>] AU False DEFAULT_WEIGHT_MULTIPLIERS
     = Fin (7881299347898369 / 1125899906842624)"
proof -
  have p1: "fl 63050394783186944 = Fin 63050394783186944"
    using fl_eval [of 63050394783186944 55] by (simp add: roundHalfEven_def)
  have s1: "fl 63050394783186951 = Fin 63050394783186952"
    using fl_eval [of 63050394783186951 55] by (simp add: roundHalfEven_def)
  have s2: "fl 9007199254740993 = Fin 9007199254740992"
    using fl_eval [of 9007199254740993 53] by (simp add: roundHalfEven_def)
  have d: "fl (7881299347898369 / 1125899906842624) = Fin (7881299347898369 / 1125899906842624)"
    using fl_eval [of "7881299347898369 / 1125899906842624" 2]
    by (simp add: roundHalfEven_def)
  show ?thesis
    unfolding calculateGPA_def forEachBody_unweighted
    by (simp add: getProperty_def AU_GRADE_POINTS_def Let_def lit_def p1 s1 s2 d)
qed

section \<open>Courses that all have the same grade\<close>





section \<open>The range of the unweighted GPA\<close>

lemma points_in_range:
  "map_of (points (SCALE_CONFIG s)) g = Some v \<Longrightarrow>
     v \<in> lit ` {0 .. (case s of US \<Rightarrow> 4 | AU \<Rightarrow> 7)}"
  by (cases s) (auto simp: US_GRADE_POINTS_def AU_GRADE_POINTS_def split: if_splits)

lemma lit_bounded:
  "0 \<le> d \<Longrightarrow> d \<le> y \<Longrightarrow> fl y = Fin y \<Longrightarrow> \<exists>p. lit d = Fin p \<and> 0 \<le> p \<and> p \<le> y"
  using fl_le_fixed [of d y] by (simp add: lit_def)

lemma basePoint_bounded:
  "\<exists>p. basePoint s g = Fin p \<and> 0 \<le> p \<and> p \<le> (case s of US \<Rightarrow> 4 | AU \<Rightarrow> 7)"
proof (cases "map_of (points (SCALE_CONFIG s)) g")
  case None
  then show ?thesis by (cases s) (simp_all add: basePoint_def lit_def)
next
  case (Some v)
  from points_in_range [OF Some] obtain d
    where d: "v = lit d" "0 \<le> d" "d \<le> (case s of US \<Rightarrow> 4 | AU \<Rightarrow> 7)"
    by auto
  have "fl (case s of US \<Rightarrow> 4 | AU \<Rightarrow> 7) = Fin (case s of US \<Rightarrow> 4 | AU \<Rightarrow> 7)"
    by (cases s) simp_all
  from lit_bounded [OF d(2,3) this] Some d(1) show ?thesis
    by (simp add: basePoint_def)
qed

lemma range_loop:
  assumes "\<forall>c\<in>set cs. credits c = Fin (of_nat (k c)) \<and> grade c \<notin> set OBJECT_PROTOTYPE_KEYS"
    and "\<And>g. \<exists>p. basePoint s g = Fin p \<and> 0 \<le> p \<and> p \<le> of_nat M"
    and "0 < M"
    and "M * (T + (\<Sum>c\<leftarrow>cs. k c)) \<le> 2 ^ 53"
    and "0 \<le> tp" "tp \<le> of_nat (M * T)"
  shows "\<exists>tp'. foldl (forEachBody (SCALE_CONFIG s) s False m) (Fin tp, Fin (of_nat T)) cs =
                  (Fin tp', Fin (of_nat (T + (\<Sum>c\<leftarrow>cs. k c))))
               \<and> 0 \<le> tp' \<and> tp' \<le> of_nat (M * (T + (\<Sum>c\<leftarrow>cs. k c)))"
  using assms(1,4,5,6)
proof (induction cs arbitrary: T tp)
  case Nil
  then show ?case by simp
next
  case (Cons c cs)
  let ?R = "\<Sum>c\<leftarrow>cs. k c"
  from Cons.prems(2) have b: "M * (T + k c + ?R) \<le> 2 ^ 53"
    by (simp add: add.assoc)
  have "M * k c \<le> M * (T + k c + ?R)"
    by (intro mult_le_mono) simp_all
  with b have 1: "M * k c \<le> 2 ^ 53" by linarith
  have "M * (T + k c) \<le> M * (T + k c + ?R)"
    by (intro mult_le_mono) simp_all
  with b have 2: "M * (T + k c) \<le> 2 ^ 53" by linarith
  have "T + k c \<le> M * (T + k c)"
    using assms(3) by (cases M) simp_all
  with 2 have 3: "T + k c \<le> 2 ^ 53" by linarith
  from Cons.prems(1) have c: "credits c = Fin (of_nat (k c))"
    "grade c \<notin> set OBJECT_PROTOTYPE_KEYS"
    by simp_all
  from assms(2) obtain p where p: "basePoint s (grade c) = Fin p" "0 \<le> p" "p \<le> of_nat M"
    by blast
  have n: "nullish (getProperty (points (SCALE_CONFIG s)) (grade c)) (lit 0) = JSNumber (Fin p)"
    using nullish_basePoint [OF c(2), of s] p(1) by simp
  have "p * of_nat (k c) \<le> of_nat M * of_nat (k c)"
    using p(3) by (intro mult_right_mono) simp_all
  then have pk: "p * of_nat (k c) \<le> of_nat (M * k c)" by simp
  have "0 \<le> p * of_nat (k c)" using p(2) by simp
  from fl_le_fixed [OF this pk fl_of_nat [OF 1]]
  obtain w where w: "fl (p * of_nat (k c)) = Fin w" "0 \<le> w" "w \<le> of_nat (M * k c)"
    by blast
  have "tp + w \<le> of_nat (M * T) + of_nat (M * k c)"
    using Cons.prems(4) w(3) by linarith
  also have "\<dots> = of_nat (M * (T + k c))"
    by (simp add: distrib_left)
  finally have tw: "tp + w \<le> of_nat (M * (T + k c))" .
  have "0 \<le> tp + w" using Cons.prems(3) w(2) by simp
  from fl_le_fixed [OF this tw fl_of_nat [OF 2]]
  obtain u where u: "fl (tp + w) = Fin u" "0 \<le> u" "u \<le> of_nat (M * (T + k c))"
    by blast
  have step: "forEachBody (SCALE_CONFIG s) s False m (Fin tp, Fin (of_nat T)) c =
                (Fin u, Fin (of_nat (T + k c)))"
  proof -
    have a: "fmul (Fin p) (Fin (of_nat (k c))) = Fin w"
      using w(1) by simp
    have b: "fadd (Fin tp) (Fin w) = Fin u"
      using u(1) by simp
    show ?thesis
      unfolding forEachBody_unweighted n c(1) jsTimes.simps fst_conv snd_conv
        a b fadd_nat [OF 3] ..
  qed
  from Cons.prems(1)
  have rest: "\<forall>c\<in>set cs. credits c = Fin (of_nat (k c)) \<and> grade c \<notin> set OBJECT_PROTOTYPE_KEYS"
    by simp
  have e: "T + k c + ?R = T + (\<Sum>c\<leftarrow>c # cs. k c)"
    by simp
  from Cons.IH [OF rest b u(2,3)] show ?case
    unfolding foldl_Cons step e .
qed

text \<open>
  Claim C9, as the code has it. The range holds where the credits are whole numbers that
  the doubles add exactly. For every scale \<open>s\<close> and every course list in which every
  course's credits value is a whole number, zero included, with seven times the credits
  in total at most \<open>2 ^ 53\<close>, and no grade is the name of a property that the grade-point
  table inherits, \<open>calculateGPA(courses, s, false)\<close> is a finite number between 0 and the
  unweighted maximum of the scale inclusive, 4 for US and 7 for AU.
\<close>

theorem calculateGPA_unweighted_range:
  "(\<forall>c\<in>set cs. credits c = Fin (of_nat (k c)) \<and> grade c \<notin> set OBJECT_PROTOTYPE_KEYS) \<Longrightarrow>
   7 * (\<Sum>c\<leftarrow>cs. k c) \<le> 2 ^ 53 \<Longrightarrow>
     (\<exists>v M. calculateGPA cs s False m = Fin v \<and> max' (SCALE_CONFIG s) = Fin M \<and> 0 \<le> v \<and> v \<le> M)
     \<and> max' (SCALE_CONFIG US) = Fin 4 \<and> max' (SCALE_CONFIG AU) = Fin 7"
proof -
  assume all: "\<forall>c\<in>set cs. credits c = Fin (of_nat (k c)) \<and> grade c \<notin> set OBJECT_PROTOTYPE_KEYS"
    and b7: "7 * (\<Sum>c\<leftarrow>cs. k c) \<le> 2 ^ 53"
  let ?S = "\<Sum>c\<leftarrow>cs. k c"
  define M :: nat where "M = (case s of US \<Rightarrow> 4 | AU \<Rightarrow> 7)"
  have M0: "0 < M" and M7: "M \<le> 7"
    by (cases s; simp add: M_def)+
  have mx: "max' (SCALE_CONFIG s) = Fin (of_nat M)"
    by (cases s) (simp_all add: M_def lit_def)
  have bp: "\<exists>p. basePoint s g = Fin p \<and> 0 \<le> p \<and> p \<le> of_nat M" for g
    using basePoint_bounded [of s g] by (cases s) (simp_all add: M_def)
  have "M * (0 + ?S) \<le> 7 * ?S"
    using M7 by simp
  with b7 have b: "M * (0 + ?S) \<le> 2 ^ 53" by linarith
  have "M \<le> 2 ^ 53" using M7 by simp
  then have flM: "fl (of_nat M) = Fin (of_nat M)" by (rule fl_of_nat)
  have "\<exists>tp'. foldl (forEachBody (SCALE_CONFIG s) s False m) (Fin 0, Fin (of_nat 0)) cs =
                 (Fin tp', Fin (of_nat (0 + ?S))) \<and> 0 \<le> tp' \<and> tp' \<le> of_nat (M * (0 + ?S))"
    by (rule range_loop [OF all bp M0 b]) simp_all
  then obtain tp where
    loop: "foldl (forEachBody (SCALE_CONFIG s) s False m) (Fin 0, Fin 0) cs = (Fin tp, Fin (of_nat ?S))"
    and tp: "0 \<le> tp" "tp \<le> of_nat (M * ?S)"
    by auto
  have "\<exists>v. calculateGPA cs s False m = Fin v \<and> 0 \<le> v \<and> v \<le> of_nat M"
  proof (cases "cs = []")
    case True
    then show ?thesis by (simp add: calculateGPA_def lit_def)
  next
    case ne: False
    have g: "fgt (Fin (of_nat ?S)) (Fin 0) = (0 < ?S)"
      by simp
    have form: "calculateGPA cs s False m =
                  (if 0 < ?S then fdiv (Fin tp) (Fin (of_nat ?S)) else Fin 0)"
      using ne
      by (simp only: calculateGPA_def Let_def lit_def fl_0 length_0_conv if_False loop
            fst_conv snd_conv g)
    show ?thesis
    proof (cases "0 < ?S")
      case True
      then have S: "(0::real) < of_nat ?S" by simp
      then have S0: "(of_nat ?S :: real) \<noteq> 0" by linarith
      have q0: "0 \<le> tp / of_nat ?S" using tp(1) by simp
      have "tp \<le> of_nat M * of_nat ?S" using tp(2) by simp
      then have q1: "tp / of_nat ?S \<le> of_nat M"
        using S by (simp add: pos_divide_le_eq)
      from fl_le_fixed [OF q0 q1 flM] obtain v
        where v: "fl (tp / of_nat ?S) = Fin v" "0 \<le> v" "v \<le> of_nat M"
        by blast
      have "calculateGPA cs s False m = Fin v"
        by (simp only: form True if_True fdiv.simps S0 if_False v(1))
      then show ?thesis using v(2,3) by blast
    next
      case False
      then have "calculateGPA cs s False m = Fin 0"
        by (simp only: form if_False)
      then show ?thesis by simp
    qed
  qed
  with mx show ?thesis
    by (auto simp: lit_def)
qed

text \<open>
  One A course of \<open>2 ^ 1022\<close> credits: the product with 4 overflows and the result is
  \<open>Infinity\<close>. Two HD courses of 0.1 and 0.4 credits on the AU scale, and two HD courses
  of \<open>2 ^ 53\<close> credits and one credit: the result is the double above 7.
\<close>

theorem calculateGPA_unweighted_range_counterexample:
  "calculateGPA
     [\<lparr> course_id = ''1'', course_name = ''Algebra'', grade = ''A'', credits = Fin (2 ^ 1022),
        isWeighted = None, weightType = None \<rparr>] US False DEFAULT_WEIGHT_MULTIPLIERS = PInf
   \<and> calculateGPA
     [\<lparr> course_id = ''1'', course_name = ''Law'', grade = ''HD'', credits = lit 0.1,
        isWeighted = None, weightType = None \<rparr>,
      \<lparr> course_id = ''2'', course_name = ''Ethics'', grade = ''HD'', credits = lit 0.4,
        isWeighted = None, weightType = None \<rparr>] AU False DEFAULT_WEIGHT_MULTIPLIERS
     = Fin (7881299347898369 / 1125899906842624)
   \<and> calculateGPA
     [\<lparr> course_id = ''1'', course_name = ''Law'', grade = ''HD'', credits = Fin (2 ^ 53),
        isWeighted = None, weightType = None \<rparr>,
      \<lparr> course_id = ''2'', course_name = ''Ethics'', grade = ''HD'', credits = Fin 1,
        isWeighted = None, weightType = None \<rparr>] AU False DEFAULT_WEIGHT_MULTIPLIERS
     = Fin (7881299347898369 / 1125899906842624)
   \<and> max' (SCALE_CONFIG AU) = Fin (7881299347898368 / 1125899906842624)"
proof -
  have big: "fl (2 ^ 1022) = Fin (2 ^ 1022)"
    using fl_eval [of "2 ^ 1022" 1022] by (simp add: roundHalfEven_def)
  have inf: "fl (4 * 2 ^ 1022) = PInf"
    by (rule fl_overflow) simp
  have 1: "calculateGPA
     [\<lparr> course_id = ''1'', course_name = ''Algebra'', grade = ''A'', credits = Fin (2 ^ 1022),
        isWeighted = None, weightType = None \<rparr>] US False DEFAULT_WEIGHT_MULTIPLIERS = PInf"
    unfolding calculateGPA_def forEachBody_unweighted
    by (simp add: getProperty_def US_GRADE_POINTS_def Let_def lit_def
          big [simplified] inf [simplified])
  have 3: "max' (SCALE_CONFIG AU) = Fin (7881299347898368 / 1125899906842624)"
    by (simp add: lit_def)
  from 1 calculateGPA_HD_tenths calculateGPA_HD_large 3 show ?thesis
    by (intro conjI)
qed

theorem calculateGPA_unweighted_range_witness:
  "calculateGPA
     [\<lparr> course_id = ''1'', course_name = ''Law'', grade = ''HD'', credits = Fin 10,
        isWeighted = None, weightType = None \<rparr>,
      \<lparr> course_id = ''2'', course_name = ''Ethics'', grade = ''P'', credits = Fin 10,
        isWeighted = None, weightType = None \<rparr>] AU False DEFAULT_WEIGHT_MULTIPLIERS = Fin 5.5
   \<and> max' (SCALE_CONFIG AU) = Fin 7"
proof -
  let ?cs = "[\<lparr> course_id = ''1'', course_name = ''Law'', grade = ''HD'', credits = Fin 10,
                 isWeighted = None, weightType = None \<rparr>,
               \<lparr> course_id = ''2'', course_name = ''Ethics'', grade = ''P'', credits = Fin 10,
                 isWeighted = None, weightType = None \<rparr>]"
  have 1: "\<forall>c\<in>set ?cs. credits c = Fin (of_nat ((\<lambda>c. 10) c)) \<and>
             grade c \<notin> set OBJECT_PROTOTYPE_KEYS"
    by (simp add: OBJECT_PROTOTYPE_KEYS_def)
  have 2: "7 * (\<Sum>c\<leftarrow>?cs. (\<lambda>c. 10 :: nat) c) \<le> 2 ^ 53"
    by simp
  have 3: "calculateGPA ?cs AU False DEFAULT_WEIGHT_MULTIPLIERS = Fin 5.5"
    unfolding calculateGPA_def forEachBody_unweighted
    by (simp add: getProperty_def AU_GRADE_POINTS_def Let_def lit_def fl_11_2)
  from calculateGPA_unweighted_range [OF 1 2, of AU DEFAULT_WEIGHT_MULTIPLIERS] 3
  show ?thesis by simp
qed

section \<open>The projected GPA\<close>











end
